theory Spec2Isabelle
  imports Complex_Main "HOL-Library.Sublist"
begin

section \<open>Data model\<close>

text \<open>
  \<^verbatim>\<open>type TUserRole = "admin" | "member"\<close> and
  \<^verbatim>\<open>type TUser = { id; name; email; role; delete?: boolean }\<close> of
  \<^verbatim>\<open>AdminUI.tsx\<close>. The field \<^verbatim>\<open>id\<close> is written \<open>uid\<close> (\<open>id\<close> is
  the identity function of HOL). The optional field \<^verbatim>\<open>delete\<close> is a
  \<open>bool option\<close>: \<open>None\<close> is JavaScript's \<^verbatim>\<open>undefined\<close>.
\<close>

datatype TUserRole = admin | member

record TUser =
  uid :: string
  name :: string
  email :: string
  role :: TUserRole
  delete :: "bool option"

text \<open>Truthiness of \<^verbatim>\<open>item.delete\<close>, and the value of \<^verbatim>\<open>!item.delete\<close>.\<close>

definition selected :: "TUser \<Rightarrow> bool" where
  "selected item = (delete item = Some True)"

definition flip_delete :: "TUser \<Rightarrow> TUser" where
  "flip_delete item = item\<lparr>delete := Some (\<not> selected item)\<rparr>"

section \<open>The hook \<^verbatim>\<open>usePagination\<close>\<close>

text \<open>
  JavaScript numbers that hold page counts and indices are modelled as \<open>int\<close>.
  \<^verbatim>\<open>range(start, end)\<close> builds \<^verbatim>\<open>start, start + 1, ..., end\<close> with
  \<^verbatim>\<open>Array.from({ length: end - start + 1 }, (_, i) => start + i)\<close>.
\<close>

definition range :: "int \<Rightarrow> int \<Rightarrow> int list" where
  "range start end =
     (if start > end then []
      else map (\<lambda>i. start + int i) [0..<nat (end - start + 1)])"

definition boundaryCount :: int where
  "boundaryCount = 1"

definition siblingCount :: int where
  "siblingCount = 1"

text \<open>
  \<^verbatim>\<open>Math.max(Math.ceil(total / pageSize), 1)\<close>. The quotient is taken in the
  reals; the model is for \<open>pageSize \<noteq> 0\<close> (JavaScript yields \<^verbatim>\<open>Infinity\<close> or
  \<^verbatim>\<open>NaN\<close> for a zero page size, HOL yields \<open>0\<close>).
\<close>

definition totalPages :: "int \<Rightarrow> int \<Rightarrow> int" where
  "totalPages totalItems pageSize =
     max \<lceil>real_of_int totalItems / real_of_int pageSize\<rceil> 1"

definition startPages :: "int \<Rightarrow> int list" where
  "startPages tp = range 1 (min boundaryCount tp)"

definition endPages :: "int \<Rightarrow> int list" where
  "endPages tp = range (max (tp - boundaryCount + 1) (boundaryCount + 1)) tp"

definition siblingsStart :: "int \<Rightarrow> int \<Rightarrow> int" where
  "siblingsStart cp tp =
     max (min (cp - siblingCount) (tp - boundaryCount - siblingCount * 2 - 1))
         (boundaryCount + 1)"

definition siblingsEnd :: "int \<Rightarrow> int \<Rightarrow> int" where
  "siblingsEnd cp tp =
     min (max (cp + siblingCount) (boundaryCount + siblingCount * 2 + 2))
         (tp - boundaryCount)"

text \<open>
  A token of the pagination bar: \<^verbatim>\<open>{ value: number | "...", isSelected }\<close>.
\<close>

datatype pvalue = Num int | Dots

record token =
  val :: pvalue
  isSelected :: bool

definition pageToken :: "int \<Rightarrow> int \<Rightarrow> token" where
  "pageToken cp page = \<lparr>val = Num page, isSelected = (page = cp)\<rparr>"

definition gapToken :: token where
  "gapToken = \<lparr>val = Dots, isSelected = False\<rparr>"

definition pagination :: "int \<Rightarrow> int \<Rightarrow> token list" where
  "pagination cp tp =
     map (pageToken cp) (startPages tp)
     @ (if siblingsStart cp tp > boundaryCount + 1 then [gapToken] else [])
     @ map (pageToken cp) (range (siblingsStart cp tp) (siblingsEnd cp tp))
     @ (if siblingsEnd cp tp < tp - boundaryCount then [gapToken] else [])
     @ map (pageToken cp) (endPages tp)"

text \<open>Reading a token sequence: its page numbers in order, and adjacent gap markers.\<close>

fun pageNumbers :: "token list \<Rightarrow> int list" where
  "pageNumbers [] = []"
| "pageNumbers (t # ts) =
     (case val t of Num n \<Rightarrow> n # pageNumbers ts | Dots \<Rightarrow> pageNumbers ts)"

fun adjacentGaps :: "token list \<Rightarrow> bool" where
  "adjacentGaps (a # b # ts) =
     ((val a = Dots \<and> val b = Dots) \<or> adjacentGaps (b # ts))"
| "adjacentGaps _ = False"

section \<open>The hook \<^verbatim>\<open>usePaginatedList\<close>\<close>

text \<open>
  \<^verbatim>\<open>Array.prototype.slice(start, end)\<close> on integer arguments: a negative
  argument counts from the end of the array, every argument is clamped into
  \<open>[0, length]\<close>, and the result is empty when the clamped end does not exceed
  the clamped start. The array is not mutated.
\<close>

definition slice :: "'a list \<Rightarrow> int \<Rightarrow> int \<Rightarrow> 'a list" where
  "slice xs start end =
     (let len = int (length xs);
          k = (if start < 0 then max (len + start) 0 else min start len);
          final = (if end < 0 then max (len + end) 0 else min end len)
      in take (nat (final - k)) (drop (nat k) xs))"

text \<open>
  \<^verbatim>\<open>[...original].slice(currentPage * pageSize, (currentPage + 1) * pageSize)\<close>,
  with the hook's zero-based \<^verbatim>\<open>currentPage\<close>.
\<close>

definition paginatedList :: "'a list \<Rightarrow> int \<Rightarrow> int \<Rightarrow> 'a list" where
  "paginatedList original currentPage pageSize =
     slice original (currentPage * pageSize) ((currentPage + 1) * pageSize)"

section \<open>Strings\<close>

text \<open>
  \<^verbatim>\<open>String.prototype.toLowerCase\<close> belongs to the JavaScript runtime and
  follows the Unicode case tables, which are no part of the repository: every
  definition that lower-cases takes the function as its parameter
  \<open>toLowerCase\<close>, and what is proved of the search is proved for every such
  function. A string that is not ASCII is read as the sequence of its UTF-8
  bytes; a well-formed string occurs in another exactly when its bytes occur
  there as a contiguous run.

  \<open>toLowerCaseASCII\<close> is what the runtime's function does on a string of
  ASCII characters: the letters \<open>A\<close> to \<open>Z\<close> become \<open>a\<close> to \<open>z\<close>. It is
  used only to run the sessions below, whose names, emails and queries are
  all ASCII.

  \<^verbatim>\<open>s.includes(t)\<close> is written \<open>includes' s t\<close>: \<open>t\<close> occurs in \<open>s\<close> as a
  contiguous substring.
\<close>

definition toLowerCaseASCII :: "string \<Rightarrow> string" where
  "toLowerCaseASCII s =
     map (\<lambda>c. case map_of (zip ''ABCDEFGHIJKLMNOPQRSTUVWXYZ''
                                ''abcdefghijklmnopqrstuvwxyz'') c of
                 Some d \<Rightarrow> d
               | None \<Rightarrow> c) s"

fun includes' :: "string \<Rightarrow> string \<Rightarrow> bool" where
  "includes' [] t = (t = [])"
| "includes' (c # cs) t = (prefix t (c # cs) \<or> includes' cs t)"

text \<open>
  \<^verbatim>\<open>xs.findIndex(p)\<close>: the index of the first element satisfying \<open>p\<close>,
  \<open>-1\<close> when there is none.
\<close>

fun findIndex :: "('a \<Rightarrow> bool) \<Rightarrow> 'a list \<Rightarrow> int" where
  "findIndex p [] = -1"
| "findIndex p (x # xs) =
     (if p x then 0
      else (let i = findIndex p xs in if i < 0 then -1 else i + 1))"

section \<open>The component \<^verbatim>\<open>AdminUI\<close>\<close>

definition PAGE_SIZE :: int where
  "PAGE_SIZE = 10"

text \<open>
  The state of the component and of its two hooks. The component's state
  variables \<^verbatim>\<open>list\<close>, \<^verbatim>\<open>name\<close>, \<^verbatim>\<open>email\<close> and \<^verbatim>\<open>role\<close> carry a prime
  (their plain names are taken). \<open>pl_original\<close> and \<open>pl_currentPage\<close> are the
  state \<^verbatim>\<open>original\<close> and the zero-based \<^verbatim>\<open>currentPage\<close> of
  \<^verbatim>\<open>usePaginatedList\<close>; \<open>pg_currentPage\<close> and \<open>pg_total\<close> are
  \<^verbatim>\<open>currentPage\<close> and \<^verbatim>\<open>total\<close> of \<^verbatim>\<open>usePagination\<close>. Both hooks
  hold \<^verbatim>\<open>pageSize\<close> too; the component passes \<^verbatim>\<open>PAGE_SIZE\<close> and never calls
  \<^verbatim>\<open>updatePageSize\<close>, so it stays \<open>PAGE_SIZE\<close>.
\<close>

record state =
  loading :: bool
  error :: string
  original :: "TUser list"
  list' :: "TUser list"
  searchText :: string
  editIndex :: int
  name' :: string
  email' :: string
  role' :: TUserRole
  pl_original :: "TUser list"
  pl_currentPage :: int
  pg_currentPage :: int
  pg_total :: int

text \<open>
  The initial values of every \<^verbatim>\<open>useState\<close>:
  \<^verbatim>\<open>usePagination\<close> starts at \<^verbatim>\<open>Math.max(initialPage, 1)\<close> with no items,
  \<^verbatim>\<open>usePaginatedList\<close> at \<^verbatim>\<open>initialPage - 1\<close> with the empty list.
\<close>

definition initialState :: state where
  "initialState =
     \<lparr>loading = True, error = '''', original = [], list' = [], searchText = '''',
      editIndex = -1, name' = '''', email' = '''', role' = member,
      pl_original = [], pl_currentPage = 1 - 1,
      pg_currentPage = max 1 1, pg_total = 0\<rparr>"

subsection \<open>Derived values\<close>

definition totalPagesOf :: "state \<Rightarrow> int" where
  "totalPagesOf s = totalPages (pg_total s) PAGE_SIZE"

definition canGoNext :: "state \<Rightarrow> bool" where
  "canGoNext s = (pg_currentPage s < totalPagesOf s)"

definition canGoPrev :: "state \<Rightarrow> bool" where
  "canGoPrev s = (pg_currentPage s > 1)"

definition paginatedListOf :: "state \<Rightarrow> TUser list" where
  "paginatedListOf s = paginatedList (pl_original s) (pl_currentPage s) PAGE_SIZE"

definition selectedCount :: "state \<Rightarrow> nat" where
  "selectedCount s = length (filter selected (list' s))"

definition paginationOf :: "state \<Rightarrow> token list" where
  "paginationOf s = pagination (pg_currentPage s) (totalPagesOf s)"

subsection \<open>Effects\<close>

text \<open>
  The three \<^verbatim>\<open>useEffect\<close> bodies that copy state between the component and
  its hooks:
  \<^item> on a new \<^verbatim>\<open>original\<close>: \<^verbatim>\<open>updateList(original)\<close> and
    \<^verbatim>\<open>updateTotalItems(original.length)\<close>;
  \<^item> on a new \<^verbatim>\<open>currentPage\<close>: \<^verbatim>\<open>setSearchText("")\<close> and
    \<^verbatim>\<open>updateCurrentPage(currentPage)\<close>, which stores \<^verbatim>\<open>page - 1\<close>;
  \<^item> on a new \<^verbatim>\<open>paginatedList\<close>: \<^verbatim>\<open>setList(paginatedList)\<close>.
\<close>

definition effect_original :: "state \<Rightarrow> state" where
  "effect_original s =
     s\<lparr>pl_original := original s, pg_total := int (length (original s))\<rparr>"

definition effect_currentPage :: "state \<Rightarrow> state" where
  "effect_currentPage s =
     s\<lparr>searchText := '''', pl_currentPage := pg_currentPage s - 1\<rparr>"

definition effect_paginatedList :: "state \<Rightarrow> state" where
  "effect_paginatedList s = s\<lparr>list' := paginatedListOf s\<rparr>"

text \<open>
  Which effects run after a handler. Every handler that calls
  \<^verbatim>\<open>setOriginal\<close> passes a freshly built array (\<^verbatim>\<open>map\<close>, \<^verbatim>\<open>filter\<close>, the
  parsed response), so the effect on \<^verbatim>\<open>original\<close> runs, the memoised
  \<^verbatim>\<open>paginatedList\<close> is rebuilt from the new \<^verbatim>\<open>original\<close> of the hook, and
  the effect on \<^verbatim>\<open>paginatedList\<close> runs. A handler of \<^verbatim>\<open>usePagination\<close>
  triggers the effect on \<^verbatim>\<open>currentPage\<close> only when the page number differs
  from the one of the previous render \<open>s0\<close>, and \<^verbatim>\<open>paginatedList\<close> is rebuilt
  only when the hook's zero-based page changed.
\<close>

definition commit_original :: "state \<Rightarrow> state" where
  "commit_original s = effect_paginatedList (effect_original s)"

definition commit_currentPage :: "state \<Rightarrow> state \<Rightarrow> state" where
  "commit_currentPage s0 s =
     (if pg_currentPage s = pg_currentPage s0 then s
      else (let s1 = effect_currentPage s
            in if pl_currentPage s1 = pl_currentPage s then s1
               else effect_paginatedList s1))"

subsection \<open>Navigation (\<^verbatim>\<open>usePagination\<close>)\<close>

definition goToPage :: "int \<Rightarrow> state \<Rightarrow> state" where
  "goToPage page s =
     commit_currentPage s (s\<lparr>pg_currentPage := max 1 (min page (totalPagesOf s))\<rparr>)"

definition nextPage :: "state \<Rightarrow> state" where
  "nextPage s =
     (if canGoNext s
      then commit_currentPage s (s\<lparr>pg_currentPage := pg_currentPage s + 1\<rparr>)
      else s)"

definition previousPage :: "state \<Rightarrow> state" where
  "previousPage s =
     (if canGoPrev s
      then commit_currentPage s (s\<lparr>pg_currentPage := pg_currentPage s - 1\<rparr>)
      else s)"

definition firstPage :: "state \<Rightarrow> state" where
  "firstPage s = commit_currentPage s (s\<lparr>pg_currentPage := 1\<rparr>)"

definition lastPage :: "state \<Rightarrow> state" where
  "lastPage s = commit_currentPage s (s\<lparr>pg_currentPage := totalPagesOf s\<rparr>)"

subsection \<open>Search\<close>

definition onSearch :: "string \<Rightarrow> state \<Rightarrow> state" where
  "onSearch v s = s\<lparr>searchText := v\<rparr>"

text \<open>
  The predicate \<^verbatim>\<open>onSearchIconClick\<close> filters with: the lower-cased email or
  the lower-cased name includes the lower-cased search text.
\<close>

definition matches :: "(string \<Rightarrow> string) \<Rightarrow> string \<Rightarrow> TUser \<Rightarrow> bool" where
  "matches toLowerCase text item =
     (includes' (toLowerCase (email item)) (toLowerCase text) \<or>
      includes' (toLowerCase (name item)) (toLowerCase text))"

definition onSearchIconClick :: "(string \<Rightarrow> string) \<Rightarrow> state \<Rightarrow> state" where
  "onSearchIconClick toLowerCase s =
     s\<lparr>list' := filter (matches toLowerCase (searchText s)) (original s)\<rparr>"

subsection \<open>Selection and deletion\<close>

text \<open>\<^verbatim>\<open>xs.map((item, index) => f(item, index))\<close>.\<close>

definition map_index :: "('a \<Rightarrow> int \<Rightarrow> 'b) \<Rightarrow> 'a list \<Rightarrow> 'b list" where
  "map_index f xs = map (\<lambda>(index, item). f item (int index)) (enumerate 0 xs)"

definition isInCurrentPage :: "int \<Rightarrow> int \<Rightarrow> bool" where
  "isInCurrentPage currentPage index =
     (index \<ge> (currentPage - 1) * PAGE_SIZE \<and> index < currentPage * PAGE_SIZE)"

text \<open>
  The argument is the attribute \<^verbatim>\<open>data-checkbox-id\<close> (\<open>None\<close> when the
  element has none); \<^verbatim>\<open>!id\<close> holds for \<^verbatim>\<open>null\<close> and for the empty string.
  The header checkbox carries \<^verbatim>\<open>"all"\<close>, a row's checkbox the record's id.
\<close>

definition onCheckboxClick :: "string option \<Rightarrow> state \<Rightarrow> state" where
  "onCheckboxClick attr s =
     (case attr of
        None \<Rightarrow> s
      | Some i \<Rightarrow>
          if i = [] then s
          else commit_original (s\<lparr>original :=
            map_index (\<lambda>item index.
              if i = ''all''
              then item\<lparr>delete :=
                     (if isInCurrentPage (pg_currentPage s) index
                      then Some (\<not> selected item) else delete item)\<rparr>
              else if uid item = i then flip_delete item else item)
            (original s)\<rparr>))"

definition onDeleteSelectedClick :: "state \<Rightarrow> state" where
  "onDeleteSelectedClick s =
     commit_original (s\<lparr>original := filter (\<lambda>item. \<not> selected item) (original s)\<rparr>)"

definition onDeleteClick :: "string option \<Rightarrow> state \<Rightarrow> state" where
  "onDeleteClick attr s =
     (case attr of
        None \<Rightarrow> s
      | Some i \<Rightarrow>
          if i = [] then s
          else commit_original
                 (s\<lparr>original := filter (\<lambda>item. uid item \<noteq> i) (original s)\<rparr>))"

subsection \<open>Inline editing\<close>

definition onEditClick :: "string option \<Rightarrow> state \<Rightarrow> state" where
  "onEditClick attr s =
     (case attr of
        None \<Rightarrow> s
      | Some i \<Rightarrow>
          if i = [] then s
          else (let index = findIndex (\<lambda>item. uid item = i) (list' s)
                in if index < 0 then s
                   else (let user = list' s ! nat index
                         in s\<lparr>editIndex := index, name' := name user,
                              email' := email user, role' := role user\<rparr>)))"

definition onNameEdit :: "string \<Rightarrow> state \<Rightarrow> state" where
  "onNameEdit v s = s\<lparr>name' := v\<rparr>"

definition onEmailEdit :: "string \<Rightarrow> state \<Rightarrow> state" where
  "onEmailEdit v s = s\<lparr>email' := v\<rparr>"

definition onRoleChange :: "TUserRole \<Rightarrow> state \<Rightarrow> state" where
  "onRoleChange v s = s\<lparr>role' := v\<rparr>"

definition onSaveClick :: "state \<Rightarrow> state" where
  "onSaveClick s =
     commit_original
       (s\<lparr>original :=
            map_index (\<lambda>item index.
              if index = (pg_currentPage s - 1) * PAGE_SIZE + editIndex s
              then item\<lparr>name := name' s, role := role' s, email := email' s\<rparr>
              else item)
            (original s),
          editIndex := -1, name' := '''', email' := '''', role' := member\<rparr>)"

subsection \<open>The initial fetch\<close>

text \<open>
  What the \<^verbatim>\<open>catch\<close> clause can receive: the \<^verbatim>\<open>DOMException\<close> named
  \<^verbatim>\<open>AbortError\<close>, an \<^verbatim>\<open>Error\<close> with its message (a \<^verbatim>\<open>TypeError\<close> of the
  transport, a \<^verbatim>\<open>SyntaxError\<close> of the parser), or a value that is no
  \<^verbatim>\<open>Error\<close>. A response carries \<^verbatim>\<open>ok\<close>, \<^verbatim>\<open>statusText\<close> and the outcome of
  \<^verbatim>\<open>await response.json()\<close>. The outcome of \<^verbatim>\<open>await fetch(...)\<close> is a thrown
  value or a response.
\<close>

datatype thrown = AbortError | ErrorObj string | OtherValue

record response =
  ok :: bool
  statusText :: string
  json :: "thrown + TUser list"

definition fetchData_start :: "state \<Rightarrow> state" where
  "fetchData_start s = s\<lparr>loading := True\<rparr>"

text \<open>The \<^verbatim>\<open>try\<close> block: the parsed records, or the value thrown.\<close>

definition tryBlock :: "thrown + response \<Rightarrow> thrown + TUser list" where
  "tryBlock r =
     (case r of
        Inl err \<Rightarrow> Inl err
      | Inr resp \<Rightarrow>
          if \<not> ok resp
          then Inl (ErrorObj (if statusText resp = [] then ''Something went wrong!''
                              else statusText resp))
          else json resp)"

text \<open>
  The rest of \<^verbatim>\<open>fetchData\<close> once the request has settled: \<^verbatim>\<open>catch\<close>
  returns silently on an abort and calls \<^verbatim>\<open>setError\<close> otherwise;
  \<^verbatim>\<open>finally\<close> calls \<^verbatim>\<open>setLoading(false)\<close> on every path.
\<close>

definition fetchData_settle :: "thrown + response \<Rightarrow> state \<Rightarrow> state" where
  "fetchData_settle r s =
     (case tryBlock r of
        Inr data \<Rightarrow> commit_original (s\<lparr>original := data, loading := False\<rparr>)
      | Inl AbortError \<Rightarrow> s\<lparr>loading := False\<rparr>
      | Inl (ErrorObj message) \<Rightarrow> s\<lparr>error := message, loading := False\<rparr>
      | Inl OtherValue \<Rightarrow>
          s\<lparr>error := ''Error while fetching the data'', loading := False\<rparr>)"

definition fetchData :: "thrown + response \<Rightarrow> state \<Rightarrow> state" where
  "fetchData r s = fetchData_settle r (fetchData_start s)"

text \<open>
  The row with the error text is rendered under \<^verbatim>\<open>!loading && error\<close>: an
  empty error text is falsy and shows nothing.
\<close>

definition errorShown :: "state \<Rightarrow> bool" where
  "errorShown s = (\<not> loading s \<and> error s \<noteq> [])"

subsection \<open>The hook \<^verbatim>\<open>useApiService\<close>\<close>

text \<open>
  The reducer state \<^verbatim>\<open>{ data, error, loading }\<close> (\<open>None\<close> is \<^verbatim>\<open>null\<close>) and
  the actions \<^verbatim>\<open>REQUEST\<close>, \<^verbatim>\<open>SUCCESS\<close> with its optional payload and
  \<^verbatim>\<open>FAILURE\<close> with its optional error text. \<^verbatim>\<open>x || y\<close> on an optional
  string takes \<open>y\<close> when \<open>x\<close> is missing or empty.
\<close>

record 'a UseApiServiceState =
  api_data :: "'a option"
  api_error :: "string option"
  api_loading :: bool

datatype 'a Action = REQUEST | SUCCESS "'a option" | FAILURE "string option"

definition api_initialState :: "'a UseApiServiceState" where
  "api_initialState = \<lparr>api_data = None, api_error = None, api_loading = False\<rparr>"

definition orElse :: "string option \<Rightarrow> string \<Rightarrow> string" where
  "orElse x y = (case x of None \<Rightarrow> y | Some v \<Rightarrow> if v = [] then y else v)"

fun apiServiceReducer :: "'a UseApiServiceState \<Rightarrow> 'a Action \<Rightarrow> 'a UseApiServiceState" where
  "apiServiceReducer st REQUEST = st\<lparr>api_loading := True, api_error := None\<rparr>"
| "apiServiceReducer st (SUCCESS payload) = st\<lparr>api_data := payload, api_loading := False\<rparr>"
| "apiServiceReducer st (FAILURE err) =
     st\<lparr>api_error := Some (orElse err ''Something went wrong!''), api_loading := False\<rparr>"

text \<open>
  \<^verbatim>\<open>trigger\<close>: \<^verbatim>\<open>REQUEST\<close> is dispatched, then the same \<^verbatim>\<open>try\<close> block
  runs; an abort returns without a dispatch.
\<close>

definition trigger :: "thrown + response \<Rightarrow> TUser list UseApiServiceState \<Rightarrow> TUser list UseApiServiceState" where
  "trigger r st =
     (let st1 = apiServiceReducer st REQUEST
      in case tryBlock r of
           Inr data \<Rightarrow> apiServiceReducer st1 (SUCCESS (Some data))
         | Inl AbortError \<Rightarrow> st1
         | Inl (ErrorObj message) \<Rightarrow> apiServiceReducer st1 (FAILURE (Some message))
         | Inl OtherValue \<Rightarrow> apiServiceReducer st1 (FAILURE (Some ''Something went wrong!'')))"

subsection \<open>Sessions\<close>

text \<open>
  The events of a session: the settling of the initial fetch and the handlers
  the rendered controls call. \<open>run\<close> applies a sequence of them in order.
  The first argument is the runtime's \<^verbatim>\<open>toLowerCase\<close>, which only the search
  uses.
\<close>

datatype event =
    FetchSettled "thrown + response"
  | Search string
  | SearchIconClick
  | CheckboxClick "string option"
  | DeleteSelectedClick
  | DeleteClick "string option"
  | EditClick "string option"
  | NameEdit string
  | EmailEdit string
  | RoleChange TUserRole
  | SaveClick
  | GoToPage int
  | NextPage
  | PreviousPage
  | FirstPage
  | LastPage

fun handle :: "(string \<Rightarrow> string) \<Rightarrow> event \<Rightarrow> state \<Rightarrow> state" where
  "handle toLowerCase (FetchSettled r) s = fetchData r s"
| "handle toLowerCase (Search v) s = onSearch v s"
| "handle toLowerCase SearchIconClick s = onSearchIconClick toLowerCase s"
| "handle toLowerCase (CheckboxClick a) s = onCheckboxClick a s"
| "handle toLowerCase DeleteSelectedClick s = onDeleteSelectedClick s"
| "handle toLowerCase (DeleteClick a) s = onDeleteClick a s"
| "handle toLowerCase (EditClick a) s = onEditClick a s"
| "handle toLowerCase (NameEdit v) s = onNameEdit v s"
| "handle toLowerCase (EmailEdit v) s = onEmailEdit v s"
| "handle toLowerCase (RoleChange v) s = onRoleChange v s"
| "handle toLowerCase SaveClick s = onSaveClick s"
| "handle toLowerCase (GoToPage p) s = goToPage p s"
| "handle toLowerCase NextPage s = nextPage s"
| "handle toLowerCase PreviousPage s = previousPage s"
| "handle toLowerCase FirstPage s = firstPage s"
| "handle toLowerCase LastPage s = lastPage s"

definition run :: "(string \<Rightarrow> string) \<Rightarrow> event list \<Rightarrow> state \<Rightarrow> state" where
  "run toLowerCase es s = foldl (\<lambda>st e. handle toLowerCase e st) s es"

text \<open>
  What the rendered controls offer in a state. The header checkbox, the
  search box and the search button are always there; the bulk delete is
  disabled when \<^verbatim>\<open>selectedCount === 0\<close>; the pagination bar has a button for
  every page number it shows, disabled for the current page, and its arrows
  are disabled by \<^verbatim>\<open>canGoPrev\<close> and \<^verbatim>\<open>canGoNext\<close>. The rows of \<^verbatim>\<open>list\<close>
  are rendered once \<^verbatim>\<open>loading\<close> is false, each with its checkbox; the row at
  \<^verbatim>\<open>editIndex\<close> has the three inputs and the save button, every other row
  the edit button and the delete button.
\<close>

definition rowIds :: "state \<Rightarrow> string option list" where
  "rowIds s = map (\<lambda>item. Some (uid item)) (list' s)"

definition actionRowIds :: "state \<Rightarrow> string option list" where
  "actionRowIds s =
     map (\<lambda>(index, item). Some (uid item))
       (filter (\<lambda>(index, item). editIndex s \<noteq> int index) (enumerate 0 (list' s)))"

definition editRowShown :: "state \<Rightarrow> bool" where
  "editRowShown s =
     (\<not> loading s \<and> 0 \<le> editIndex s \<and> editIndex s < int (length (list' s)))"

fun offered :: "state \<Rightarrow> event \<Rightarrow> bool" where
  "offered s (FetchSettled r) = loading s"
| "offered s (Search v) = True"
| "offered s SearchIconClick = True"
| "offered s (CheckboxClick a) =
     (a = Some ''all'' \<or> (\<not> loading s \<and> a \<in> set (rowIds s)))"
| "offered s DeleteSelectedClick = (selectedCount s \<noteq> 0)"
| "offered s (DeleteClick a) = (\<not> loading s \<and> a \<in> set (actionRowIds s))"
| "offered s (EditClick a) = (\<not> loading s \<and> a \<in> set (actionRowIds s))"
| "offered s (NameEdit v) = editRowShown s"
| "offered s (EmailEdit v) = editRowShown s"
| "offered s (RoleChange v) = editRowShown s"
| "offered s SaveClick = editRowShown s"
| "offered s (GoToPage p) = (Num p \<in> set (map val (paginationOf s)) \<and> p \<noteq> pg_currentPage s)"
| "offered s NextPage = canGoNext s"
| "offered s PreviousPage = canGoPrev s"
| "offered s FirstPage = canGoPrev s"
| "offered s LastPage = canGoNext s"

fun feasible :: "(string \<Rightarrow> string) \<Rightarrow> event list \<Rightarrow> state \<Rightarrow> bool" where
  "feasible toLowerCase [] s = True"
| "feasible toLowerCase (e # es) s =
     (offered s e \<and> feasible toLowerCase es (handle toLowerCase e s))"

text \<open>
  The hooks follow the component: in every state a session reaches, the list
  of \<^verbatim>\<open>usePaginatedList\<close> is the canonical list, its zero-based page is the
  page of \<^verbatim>\<open>usePagination\<close> less one, that page is at least 1, and the total
  of \<^verbatim>\<open>usePagination\<close> is the length of the canonical list.
\<close>

definition inSync :: "state \<Rightarrow> bool" where
  "inSync s =
     (pl_original s = original s \<and>
      pl_currentPage s = pg_currentPage s - 1 \<and>
      1 \<le> pg_currentPage s \<and>
      pg_total s = int (length (original s)))"

subsection \<open>A directory of 25 records\<close>

definition twoDigits :: "nat \<Rightarrow> string" where
  "twoDigits n = [''0123456789'' ! (n div 10), ''0123456789'' ! (n mod 10)]"

definition mkUser :: "nat \<Rightarrow> TUser" where
  "mkUser n =
     \<lparr>uid = twoDigits n,
      name = (if n = 5 \<or> n = 7 then ''Ann '' else ''Bob '') @ twoDigits n,
      email = ''u'' @ twoDigits n @ ''@mail.io'',
      role = member,
      delete = None\<rparr>"

definition users25 :: "TUser list" where
  "users25 = map mkUser [0..<25]"

definition loaded25 :: state where
  "loaded25 =
     fetchData (Inr \<lparr>ok = True, statusText = ''OK'', json = Inr users25\<rparr>) initialState"

text \<open>
  Sessions on that directory. In \<open>deleteOnLastPage\<close> one record of page 1 is
  ticked, page 3 is opened, its five records are ticked with the header
  checkbox, and the bulk delete is clicked. In \<open>searchAnn\<close> a query that
  matches two records is typed and run. In \<open>editAfterSearch\<close> the second of
  the two search results is put into edit mode, renamed and saved. In
  \<open>tickOne\<close> one record of page 1 is ticked. In \<open>searchU1\<close> a query that
  matches the ten records of page 2 is run from page 1.
\<close>

definition tickThenOpenLastPage :: "event list" where
  "tickThenOpenLastPage =
     [CheckboxClick (Some ''01''), GoToPage 3, CheckboxClick (Some ''all'')]"

definition deleteOnLastPage :: "event list" where
  "deleteOnLastPage = tickThenOpenLastPage @ [DeleteSelectedClick]"

definition searchAnn :: "event list" where
  "searchAnn = [Search ''ANN'', SearchIconClick]"

definition editAfterSearch :: "event list" where
  "editAfterSearch =
     [Search ''ann'', SearchIconClick, EditClick (Some ''07''), NameEdit ''Zed'', SaveClick]"

definition tickOne :: "event list" where
  "tickOne = [CheckboxClick (Some ''01'')]"

definition searchU1 :: "event list" where
  "searchU1 = [Search ''U1'', SearchIconClick]"

section \<open>The page window\<close>

lemma range_upto: "range a b = [a..b]"
  by (rule nth_equalityI) (auto simp: range_def)

lemma totalPages_div [code]: "totalPages t p = max (- ((- t) div p)) 1"
  unfolding totalPages_def by (simp add: ceiling_divide_eq_div)

lemma pageNumbers_append: "pageNumbers (xs @ ys) = pageNumbers xs @ pageNumbers ys"
  by (induction xs) (auto split: pvalue.splits)

lemma pageNumbers_pages: "pageNumbers (map (pageToken cp) ns) = ns"
  by (induction ns) (auto simp: pageToken_def)

lemma pageNumbers_gap: "pageNumbers [gapToken] = []"
  by (simp add: gapToken_def)

lemma pageNumbers_pagination:
  "pageNumbers (pagination cp tp) =
     startPages tp @ range (siblingsStart cp tp) (siblingsEnd cp tp) @ endPages tp"
  by (simp add: pagination_def pageNumbers_append pageNumbers_pages gapToken_def)

lemma val_pageToken: "val (pageToken cp n) = Num n"
  by (simp add: pageToken_def)

lemma adjacentGaps_page_Cons: "adjacentGaps (pageToken cp n # ts) = adjacentGaps ts"
  by (cases ts) (simp_all add: val_pageToken)

lemma adjacentGaps_gap_Cons:
  "adjacentGaps (gapToken # ts) = ((ts \<noteq> [] \<and> val (hd ts) = Dots) \<or> adjacentGaps ts)"
  by (cases ts) (simp_all add: gapToken_def)

lemma adjacentGaps_pages_append:
  "adjacentGaps (map (pageToken cp) ns @ ts) = adjacentGaps ts"
  by (induction ns) (simp_all add: adjacentGaps_page_Cons)

lemma strictly_increasing_numbers:
  assumes "1 \<le> tp"
  shows "sorted_wrt (<) (startPages tp @ range (siblingsStart cp tp) (siblingsEnd cp tp) @ endPages tp)"
proof -
  have s: "startPages tp = [1]"
    using assms by (simp add: startPages_def boundaryCount_def range_upto upto.simps)
  have e: "endPages tp = (if 2 \<le> tp then [tp] else [])"
    using assms by (auto simp: endPages_def boundaryCount_def range_upto upto.simps)
  have lo: "2 \<le> siblingsStart cp tp"
    by (simp add: siblingsStart_def boundaryCount_def siblingCount_def)
  have hi: "siblingsEnd cp tp \<le> tp - 1"
    by (simp add: siblingsEnd_def boundaryCount_def siblingCount_def)
  have mid: "sorted_wrt (<) [siblingsStart cp tp..siblingsEnd cp tp]"
    by (simp add: strict_sorted_iff)
  show ?thesis
    unfolding s e range_upto using lo hi mid
    by (auto simp: sorted_wrt_append)
qed

lemma adjacentGaps_shape:
  assumes "c1 \<Longrightarrow> c2 \<Longrightarrow> ms \<noteq> []"
  shows "\<not> adjacentGaps (map (pageToken cp) [p] @ (if c1 then [gapToken] else [])
            @ map (pageToken cp) ms @ (if c2 then [gapToken] else [])
            @ map (pageToken cp) es)"
proof -
  let ?T = "(if c2 then [gapToken] else []) @ map (pageToken cp) es"
  let ?R = "map (pageToken cp) ms @ ?T"
  have tl: "\<not> adjacentGaps ?T"
    using adjacentGaps_pages_append [of cp es "[]"]
    by (cases es) (simp_all add: adjacentGaps_gap_Cons val_pageToken)
  have md: "\<not> adjacentGaps ?R"
    using tl by (simp add: adjacentGaps_pages_append)
  have hd: "val (hd ?R) \<noteq> Dots" if "c1" "?R \<noteq> []"
    using that assms
    by (cases ms; cases es; cases c2) (simp_all add: val_pageToken)
  have gp: "\<not> adjacentGaps (gapToken # ?R)" if "c1"
    unfolding adjacentGaps_gap_Cons using md hd [OF that] by blast
  have "\<not> adjacentGaps ((if c1 then [gapToken] else []) @ ?R)"
  proof (cases c1)
    case True
    then show ?thesis using gp by simp
  next
    case False
    then show ?thesis using md by simp
  qed
  then show ?thesis
    by (simp only: adjacentGaps_pages_append not_False_eq_True)
qed

lemma no_adjacent_gaps:
  assumes "1 \<le> tp"
  shows "\<not> adjacentGaps (pagination cp tp)"
proof -
  have mid: "siblingsStart cp tp \<le> siblingsEnd cp tp"
    if "siblingsStart cp tp > boundaryCount + 1" "siblingsEnd cp tp < tp - boundaryCount"
    using that by (auto simp: siblingsStart_def siblingsEnd_def boundaryCount_def siblingCount_def)
  have ne: "range (siblingsStart cp tp) (siblingsEnd cp tp) \<noteq> []"
    if "siblingsStart cp tp > boundaryCount + 1" "siblingsEnd cp tp < tp - boundaryCount"
    using mid [OF that] by (simp add: range_def)
  have s: "startPages tp = [1]"
    using assms by (simp add: startPages_def boundaryCount_def range_def)
  show ?thesis
    unfolding pagination_def s using ne by (rule adjacentGaps_shape)
qed

text \<open>
  C5. For every \<open>totalPages \<ge> 1\<close> and every \<open>currentPage\<close> in
  \<open>[1, totalPages]\<close> (with \<open>boundaryCount = siblingCount = 1\<close>) the page
  numbers of the token sequence are strictly increasing, none occurs twice,
  and no two gap markers are adjacent; for \<open>totalPages = 1\<close> the sequence is
  exactly the token of page 1, with no gap.
\<close>

theorem pagination_tokens_wellformed:
  assumes "1 \<le> tp" and "1 \<le> cp" and "cp \<le> tp"
  shows "sorted_wrt (<) (pageNumbers (pagination cp tp)) \<and>
         distinct (pageNumbers (pagination cp tp)) \<and>
         \<not> adjacentGaps (pagination cp tp) \<and>
         (tp = 1 \<longrightarrow> pagination cp tp = [\<lparr>val = Num 1, isSelected = True\<rparr>])"
proof -
  have inc: "sorted_wrt (<) (pageNumbers (pagination cp tp))"
    unfolding pageNumbers_pagination using assms(1) by (rule strictly_increasing_numbers)
  then have dis: "distinct (pageNumbers (pagination cp tp))"
    by (simp add: strict_sorted_iff)
  have one: "pagination cp tp = [\<lparr>val = Num 1, isSelected = True\<rparr>]" if "tp = 1"
  proof -
    have "cp = 1" using assms that by simp
    then show ?thesis
      using that
      by (simp add: pagination_def startPages_def endPages_def siblingsStart_def
            siblingsEnd_def boundaryCount_def siblingCount_def range_def pageToken_def)
  qed
  show ?thesis
    using inc dis no_adjacent_gaps [OF assms(1)] one by blast
qed

theorem pagination_tokens_wellformed_witness:
  "map val (pagination 4 7) = [Num 1, Dots, Num 3, Num 4, Num 5, Dots, Num 7] \<and>
   sorted_wrt (<) (pageNumbers (pagination 4 7)) \<and>
   distinct (pageNumbers (pagination 4 7)) \<and>
   \<not> adjacentGaps (pagination 4 7)"
proof -
  have "map val (pagination 4 7) = [Num 1, Dots, Num 3, Num 4, Num 5, Dots, Num 7]"
    by (simp add: pagination_def startPages_def endPages_def siblingsStart_def
          siblingsEnd_def boundaryCount_def siblingCount_def range_def pageToken_def
          gapToken_def upt_rec)
  then show ?thesis
    using pagination_tokens_wellformed [of 7 4] by simp
qed

section \<open>Page slices\<close>

lemma slice_nonneg:
  "0 \<le> a \<Longrightarrow> 0 \<le> b \<Longrightarrow> slice xs a b = take (nat b - nat a) (drop (nat a) xs)"
  unfolding slice_def Let_def
  by (auto simp: min_def nat_diff_distrib' take_all_iff)

lemma paginatedList_take_drop:
  assumes "0 \<le> p" and "0 < n"
  shows "paginatedList xs p n = take (nat n) (drop (nat (p * n)) xs)"
proof -
  have "nat ((p + 1) * n) - nat (p * n) = nat n"
    using assms by (simp add: nat_diff_distrib' [symmetric] algebra_simps)
  then show ?thesis
    using assms by (simp add: paginatedList_def slice_nonneg)
qed

lemma concat_pages_take:
  "concat (map (\<lambda>p. take n (drop (p * n) xs)) [0..<k]) = take (k * n) xs"
proof (induction k)
  case 0
  then show ?case by simp
next
  case (Suc k)
  have "take (k * n) xs @ take n (drop (k * n) xs) = take (k * n + n) xs"
    by (simp add: take_add)
  with Suc show ?case by (simp add: add.commute)
qed

lemma pages_cover:
  assumes "0 < n"
  shows "int (length xs) \<le> \<lceil>real (length xs) / real_of_int n\<rceil> * n"
proof -
  have "real (length xs) / real_of_int n \<le> real_of_int \<lceil>real (length xs) / real_of_int n\<rceil>"
    by (rule le_of_int_ceiling)
  moreover have "0 < real_of_int n" using assms by simp
  ultimately have "real (length xs) \<le> real_of_int \<lceil>real (length xs) / real_of_int n\<rceil> * real_of_int n"
    by (simp only: pos_divide_le_eq)
  then have "real_of_int (int (length xs)) \<le> real_of_int (\<lceil>real (length xs) / real_of_int n\<rceil> * n)"
    by simp
  then show ?thesis by (simp only: of_int_le_iff)
qed

lemma concat_paginatedList:
  assumes "0 < n" and "int (length xs) \<le> int k * n"
  shows "concat (map (\<lambda>p. paginatedList xs (int p) n) [0..<k]) = xs"
proof -
  have "paginatedList xs (int p) n = take (nat n) (drop (p * nat n) xs)" for p
    using assms(1) by (simp add: paginatedList_take_drop nat_mult_distrib)
  then have "concat (map (\<lambda>p. paginatedList xs (int p) n) [0..<k]) = take (k * nat n) xs"
    by (simp add: concat_pages_take)
  moreover have "length xs \<le> k * nat n"
  proof -
    have "int (length xs) \<le> int (k * nat n)" using assms by simp
    then show ?thesis by (simp only: of_nat_le_iff)
  qed
  ultimately show ?thesis by simp
qed

text \<open>
  C6. For every list and every \<open>pageSize > 0\<close>, concatenating the page
  slices of the page indices \<open>0, ..., ceil(length / pageSize) - 1\<close> gives back
  the list, element for element and in order (and so does concatenating the
  \<open>totalPages\<close> slices the pagination hook counts); the slice of page \<open>p\<close> is
  \<open>items[p * pageSize : (p + 1) * pageSize]\<close>, and it is empty when the index
  is beyond the end of the list. \<open>paginatedList\<close> is a function of the list:
  it copies the array before slicing and the list itself is left as it is.
\<close>

theorem paginatedList_roundtrip:
  assumes "0 < pageSize"
  shows "concat (map (\<lambda>p. paginatedList xs (int p) pageSize)
                   [0..<nat \<lceil>real (length xs) / real_of_int pageSize\<rceil>]) = xs \<and>
         concat (map (\<lambda>p. paginatedList xs (int p) pageSize)
                   [0..<nat (totalPages (int (length xs)) pageSize)]) = xs \<and>
         (\<forall>p\<ge>0. paginatedList xs p pageSize =
                  take (nat pageSize) (drop (nat (p * pageSize)) xs)) \<and>
         (\<forall>p. int (length xs) \<le> p * pageSize \<longrightarrow> paginatedList xs p pageSize = [])"
proof -
  let ?c = "\<lceil>real (length xs) / real_of_int pageSize\<rceil>"
  have "0 \<le> real (length xs) / real_of_int pageSize"
    using assms by simp
  then have c0: "0 \<le> ?c"
    by (simp only: zero_le_ceiling)
  have cov: "int (length xs) \<le> ?c * pageSize"
    using assms by (rule pages_cover)
  have a: "concat (map (\<lambda>p. paginatedList xs (int p) pageSize) [0..<nat ?c]) = xs"
    using assms cov c0 by (intro concat_paginatedList) simp_all
  have "?c \<le> totalPages (int (length xs)) pageSize"
    by (simp add: totalPages_def)
  then have "?c * pageSize \<le> totalPages (int (length xs)) pageSize * pageSize"
    using assms by (intro mult_right_mono) simp_all
  with cov have cov': "int (length xs) \<le> totalPages (int (length xs)) pageSize * pageSize"
    by (rule order_trans)
  have t0: "0 \<le> totalPages (int (length xs)) pageSize"
    by (simp add: totalPages_def)
  have b: "concat (map (\<lambda>p. paginatedList xs (int p) pageSize)
                   [0..<nat (totalPages (int (length xs)) pageSize)]) = xs"
    using assms cov' t0 by (intro concat_paginatedList) simp_all
  have c: "paginatedList xs p pageSize = take (nat pageSize) (drop (nat (p * pageSize)) xs)"
    if "0 \<le> p" for p
    using that assms by (rule paginatedList_take_drop)
  have d: "paginatedList xs p pageSize = []" if "int (length xs) \<le> p * pageSize" for p
  proof -
    have "0 \<le> p * pageSize" using that by linarith
    then have "0 \<le> p" using assms by (simp add: zero_le_mult_iff)
    then show ?thesis using that c by simp
  qed
  show ?thesis using a b c d by blast
qed

theorem paginatedList_roundtrip_witness:
  "concat (map (\<lambda>p. paginatedList ''abcdefg'' (int p) 3)
             [0..<nat \<lceil>real (length ''abcdefg'') / real_of_int 3\<rceil>]) = ''abcdefg'' \<and>
   paginatedList ''abcdefg'' 1 3 = ''def'' \<and>
   paginatedList ''abcdefg'' 2 3 = ''g'' \<and>
   paginatedList ''abcdefg'' 3 3 = []"
proof -
  have "(0::int) < 3" by simp
  from paginatedList_roundtrip [OF this, of "''abcdefg''"]
  have "concat (map (\<lambda>p. paginatedList ''abcdefg'' (int p) 3)
             [0..<nat \<lceil>real (length ''abcdefg'') / real_of_int 3\<rceil>]) = ''abcdefg''"
    by blast
  moreover have "paginatedList ''abcdefg'' 1 3 = ''def''"
    by (simp add: paginatedList_def slice_def)
  moreover have "paginatedList ''abcdefg'' 2 3 = ''g''"
    by (simp add: paginatedList_def slice_def)
  moreover have "paginatedList ''abcdefg'' 3 3 = []"
    by (simp add: paginatedList_def slice_def)
  ultimately show ?thesis by blast
qed

section \<open>The directory store\<close>

lemma length_map_index: "length (map_index f xs) = length xs"
  by (simp add: map_index_def)

lemma nth_map_index: "i < length xs \<Longrightarrow> map_index f xs ! i = f (xs ! i) (int i)"
  by (simp add: map_index_def nth_enumerate_eq)

lemma original_commit_original: "original (commit_original s) = original s"
  by (simp add: commit_original_def effect_paginatedList_def effect_original_def)

lemma pg_currentPage_commit_original: "pg_currentPage (commit_original s) = pg_currentPage s"
  by (simp add: commit_original_def effect_paginatedList_def effect_original_def)

lemma pg_total_commit_original: "pg_total (commit_original s) = int (length (original s))"
  by (simp add: commit_original_def effect_paginatedList_def effect_original_def)

lemma list_commit_original:
  "list' (commit_original s) = paginatedList (original s) (pl_currentPage s) PAGE_SIZE"
  by (simp add: commit_original_def effect_paginatedList_def effect_original_def
        paginatedListOf_def)

lemma set_slice: "set (slice xs a b) \<subseteq> set xs"
  unfolding slice_def Let_def
  by (meson set_take_subset set_drop_subset subset_trans)

lemma set_paginatedList: "set (paginatedList xs p n) \<subseteq> set xs"
  by (simp add: paginatedList_def set_slice)

lemma length_original_toggle_all:
  "length (original (onCheckboxClick (Some ''all'') s)) = length (original s)"
  by (simp add: onCheckboxClick_def original_commit_original length_map_index)

lemma nth_original_toggle_all:
  "i < length (original s) \<Longrightarrow>
   original (onCheckboxClick (Some ''all'') s) ! i =
     (original s ! i)\<lparr>delete :=
        (if isInCurrentPage (pg_currentPage s) (int i)
         then Some (\<not> selected (original s ! i)) else delete (original s ! i))\<rparr>"
  by (simp add: onCheckboxClick_def original_commit_original nth_map_index)

lemma pg_currentPage_toggle_all:
  "pg_currentPage (onCheckboxClick (Some ''all'') s) = pg_currentPage s"
  by (simp add: onCheckboxClick_def pg_currentPage_commit_original)

text \<open>
  On mount \<^verbatim>\<open>fetchData\<close> starts and the three effects run once; they leave
  the initial state as it is.
\<close>

lemma mount_effects:
  "effect_paginatedList (effect_currentPage (effect_original (fetchData_start initialState)))
     = initialState"
  by (simp add: initialState_def fetchData_start_def effect_original_def
        effect_currentPage_def effect_paginatedList_def paginatedListOf_def
        paginatedList_def slice_def)

lemma totalPagesOf_ge_1: "1 \<le> totalPagesOf s"
  by (simp add: totalPagesOf_def totalPages_def)

lemma pagination_state_commit_currentPage:
  "pg_currentPage (commit_currentPage s0 s) = pg_currentPage s"
  "pg_total (commit_currentPage s0 s) = pg_total s"
  "original (commit_currentPage s0 s) = original s"
  by (simp_all add: commit_currentPage_def effect_currentPage_def effect_paginatedList_def
        Let_def)

text \<open>
  Every handler of the pagination hook leaves \<^verbatim>\<open>currentPage\<close> inside
  \<open>[1, totalPages]\<close>: \<^verbatim>\<open>goToPage\<close> clamps its argument, \<^verbatim>\<open>nextPage\<close> and
  \<^verbatim>\<open>previousPage\<close> are guarded by \<^verbatim>\<open>canGoNext\<close> and \<^verbatim>\<open>canGoPrev\<close>.
\<close>

lemma navigation_keeps_currentPage_in_range:
  assumes "1 \<le> pg_currentPage s" and "pg_currentPage s \<le> totalPagesOf s"
    and "f \<in> {goToPage p, nextPage, previousPage, firstPage, lastPage}"
  shows "1 \<le> pg_currentPage (f s) \<and> pg_currentPage (f s) \<le> totalPagesOf (f s)"
  using assms totalPagesOf_ge_1 [of s]
  by (auto simp: goToPage_def nextPage_def previousPage_def firstPage_def lastPage_def
        canGoNext_def canGoPrev_def pagination_state_commit_currentPage totalPagesOf_def)

text \<open>
  The hooks stay in step with the component: \<open>inSync\<close> holds initially and
  every handler keeps it.
\<close>

lemma inSync_initialState: "inSync initialState"
  by (simp add: inSync_def initialState_def)

lemma inSync_commit_original: "inSync s \<Longrightarrow> inSync (commit_original (s\<lparr>original := xs\<rparr>))"
  by (simp add: inSync_def commit_original_def effect_original_def effect_paginatedList_def)

lemma inSync_commit_currentPage:
  "inSync s \<Longrightarrow> 1 \<le> p \<Longrightarrow> inSync (commit_currentPage s (s\<lparr>pg_currentPage := p\<rparr>))"
  by (simp add: inSync_def commit_currentPage_def effect_currentPage_def
        effect_paginatedList_def Let_def)

lemma inSync_commit_original':
  "pl_currentPage s' = pg_currentPage s' - 1 \<Longrightarrow> 1 \<le> pg_currentPage s' \<Longrightarrow>
   inSync (commit_original s')"
  by (simp add: inSync_def commit_original_def effect_original_def effect_paginatedList_def)

lemma inSync_fetchData: "inSync s \<Longrightarrow> inSync (fetchData r s)"
  by (auto simp: fetchData_def fetchData_settle_def fetchData_start_def
        intro!: inSync_commit_original' split: sum.splits thrown.splits)
     (simp_all add: inSync_def)

lemma inSync_navigation:
  assumes "inSync s"
  shows "inSync (goToPage p s)" and "inSync (nextPage s)" and "inSync (previousPage s)"
    and "inSync (firstPage s)" and "inSync (lastPage s)"
  using assms totalPagesOf_ge_1 [of s]
  by (auto simp: goToPage_def nextPage_def previousPage_def firstPage_def lastPage_def
        canGoPrev_def intro!: inSync_commit_currentPage)
     (simp_all add: inSync_def)

lemma inSync_mutation:
  assumes "inSync s"
  shows "inSync (onCheckboxClick a s)" and "inSync (onDeleteSelectedClick s)"
    and "inSync (onDeleteClick a s)" and "inSync (onSaveClick s)"
  using assms
  by (auto simp: onCheckboxClick_def onDeleteSelectedClick_def onDeleteClick_def
        onSaveClick_def intro!: inSync_commit_original' split: option.splits)
     (simp_all add: inSync_def)

lemma inSync_local:
  assumes "inSync s"
  shows "inSync (onSearch v s)" and "inSync (onSearchIconClick toLowerCase s)"
    and "inSync (onEditClick a s)" and "inSync (onNameEdit v s)"
    and "inSync (onEmailEdit v s)" and "inSync (onRoleChange r s)"
  using assms
  by (simp_all add: inSync_def onSearch_def onSearchIconClick_def onEditClick_def
        onNameEdit_def onEmailEdit_def onRoleChange_def Let_def split: option.splits)

lemma inSync_handle: "inSync s \<Longrightarrow> inSync (handle toLowerCase e s)"
  by (cases e) (simp_all add: inSync_fetchData inSync_navigation inSync_mutation inSync_local)

lemma inSync_run: "inSync s \<Longrightarrow> inSync (run toLowerCase es s)"
  unfolding run_def by (induction es arbitrary: s) (simp_all add: inSync_handle)

text \<open>
  The header checkbox rewrites a window of the canonical list: the positions
  of the current page.
\<close>

lemma isInCurrentPage_nat:
  assumes "1 \<le> cp"
  shows "isInCurrentPage cp (int i) \<longleftrightarrow>
           nat ((cp - 1) * PAGE_SIZE) \<le> i \<and> i < nat ((cp - 1) * PAGE_SIZE) + nat PAGE_SIZE"
  using assms by (auto simp: isInCurrentPage_def PAGE_SIZE_def)

lemma patch_window:
  assumes "length ys = length xs"
    and "\<And>i. i < length xs \<Longrightarrow> ys ! i = (if k \<le> i \<and> i < k + n then g (xs ! i) else xs ! i)"
  shows "take k ys = take k xs"
    and "drop (k + n) ys = drop (k + n) xs"
    and "take n (drop k ys) = map g (take n (drop k xs))"
proof -
  show "take k ys = take k xs"
    using assms by (intro nth_equalityI) simp_all
  show "drop (k + n) ys = drop (k + n) xs"
    using assms by (intro nth_equalityI) simp_all
  show "take n (drop k ys) = map g (take n (drop k xs))"
  proof (intro nth_equalityI)
    show "length (take n (drop k ys)) = length (map g (take n (drop k xs)))"
      using assms(1) by simp
  next
    fix i
    assume "i < length (take n (drop k ys))"
    then have i: "i < n" "k + i < length xs" "k \<le> length xs"
      using assms(1) by auto
    then have "ys ! (k + i) = g (xs ! (k + i))"
      using assms(2) [of "k + i"] by simp
    then show "take n (drop k ys) ! i = map g (take n (drop k xs)) ! i"
      using i assms(1) by (simp add: nth_drop)
  qed
qed

lemma nth_toggle_all_window:
  assumes "1 \<le> pg_currentPage s" and "i < length (original s)"
  shows "original (onCheckboxClick (Some ''all'') s) ! i =
           (if nat ((pg_currentPage s - 1) * PAGE_SIZE) \<le> i \<and>
               i < nat ((pg_currentPage s - 1) * PAGE_SIZE) + nat PAGE_SIZE
            then flip_delete (original s ! i) else original s ! i)"
  using assms(2)
  by (simp add: nth_original_toggle_all isInCurrentPage_nat [OF assms(1)] flip_delete_def)

lemmas toggle_all_window =
  patch_window [OF length_original_toggle_all nth_toggle_all_window]

lemma split_at_page: "xs = take k xs @ take n (drop k xs) @ drop (k + n) xs"
  by (metis append_take_drop_id drop_drop add.commute)

lemma paginatedListOf_inSync:
  assumes "inSync s"
  shows "paginatedListOf s =
           take (nat PAGE_SIZE) (drop (nat ((pg_currentPage s - 1) * PAGE_SIZE)) (original s))"
  using assms
  by (simp add: inSync_def paginatedListOf_def paginatedList_take_drop PAGE_SIZE_def)

lemma list_toggle_all:
  "list' (onCheckboxClick (Some ''all'') s) =
     paginatedList (original (onCheckboxClick (Some ''all'') s)) (pl_currentPage s) PAGE_SIZE"
  by (simp add: onCheckboxClick_def list_commit_original original_commit_original)

lemma flip_delete_fields:
  "selected (flip_delete item) = (\<not> selected item)"
  "uid (flip_delete item) = uid item"
  "name (flip_delete item) = name item"
  "email (flip_delete item) = email item"
  "role (flip_delete item) = role item"
  by (simp_all add: flip_delete_def selected_def)

subsection \<open>Pagination after a mutation\<close>

text \<open>
  C1. The claim: in every reachable state \<open>currentPage\<close> lies in
  \<open>[1, totalPages]\<close>, and a mutation that shrinks the list below the current
  page clamps \<open>currentPage\<close> to the new \<open>totalPages\<close>. The session
  \<open>deleteOnLastPage\<close> uses only controls that are offered: with 25 records
  and page 3 open, six ticked records are deleted. \<^verbatim>\<open>updateTotalItems\<close>
  stores the new count 19, \<open>totalPages\<close> becomes 2, and \<open>currentPage\<close> is
  still 3: no handler or effect adjusts it, and the table shows no row. The
  session does not search, so this holds whatever \<^verbatim>\<open>toLowerCase\<close> does.
\<close>

theorem delete_leaves_currentPage_beyond_totalPages:
  "feasible toLowerCase deleteOnLastPage loaded25 \<and>
   length (original loaded25) = 25 \<and>
   totalPagesOf loaded25 = 3 \<and>
   pg_currentPage (run toLowerCase tickThenOpenLastPage loaded25) = 3 \<and>
   length (list' (run toLowerCase tickThenOpenLastPage loaded25)) = 5 \<and>
   length (filter selected (original (run toLowerCase tickThenOpenLastPage loaded25))) = 6 \<and>
   length (original (run toLowerCase deleteOnLastPage loaded25)) = 19 \<and>
   totalPagesOf (run toLowerCase deleteOnLastPage loaded25) = 2 \<and>
   pg_currentPage (run toLowerCase deleteOnLastPage loaded25) = 3 \<and>
   \<not> pg_currentPage (run toLowerCase deleteOnLastPage loaded25)
       \<le> totalPagesOf (run toLowerCase deleteOnLastPage loaded25) \<and>
   list' (run toLowerCase deleteOnLastPage loaded25) = []"
  by code_simp

subsection \<open>Search\<close>

text \<open>
  C2, as stated: with 25 records and page size 10, a search that matches
  exactly two records yields a list of length 2, recomputes \<open>totalPages\<close> to
  1 and puts \<open>currentPage\<close> at 1. On the session \<open>searchAnn\<close> the list shown
  has length 2 and \<open>currentPage\<close> is 1, but \<open>totalPages\<close> is not 1.
\<close>

theorem search_keeps_totalPages_counterexample:
  "length (original loaded25) = 25 \<and>
   pg_currentPage loaded25 = 1 \<and>
   length (filter (matches toLowerCaseASCII ''ANN'') (original loaded25)) = 2 \<and>
   feasible toLowerCaseASCII searchAnn loaded25 \<and>
   length (list' (run toLowerCaseASCII searchAnn loaded25)) = 2 \<and>
   totalPagesOf (run toLowerCaseASCII searchAnn loaded25) = 3 \<and>
   totalPagesOf (run toLowerCaseASCII searchAnn loaded25) \<noteq> 1"
  by code_simp

text \<open>
  C2, amended. With 25 records and page size 10, running a search whose query
  matches exactly two records shows a list of length 2 (the matching records
  of the canonical list, in its order) and leaves the canonical list, the page
  count, which stays 3, and \<open>currentPage\<close> as they were:
  \<^verbatim>\<open>onSearchIconClick\<close> only calls \<^verbatim>\<open>setList\<close>, and the pagination hook
  counts the canonical list. The records that match are those the code's own
  predicate accepts, whatever the runtime's \<^verbatim>\<open>toLowerCase\<close> is.
\<close>

theorem search_leaves_pagination:
  assumes "length (original s) = 25" and "pg_total s = int (length (original s))"
    and "length (filter (matches toLowerCase (searchText s)) (original s)) = 2"
  shows "length (list' (onSearchIconClick toLowerCase s)) = 2 \<and>
         list' (onSearchIconClick toLowerCase s) = filter (matches toLowerCase (searchText s)) (original s) \<and>
         original (onSearchIconClick toLowerCase s) = original s \<and>
         totalPagesOf (onSearchIconClick toLowerCase s) = 3 \<and>
         pg_currentPage (onSearchIconClick toLowerCase s) = pg_currentPage s"
  using assms
  by (simp add: onSearchIconClick_def totalPagesOf_def totalPages_div PAGE_SIZE_def)

theorem search_leaves_pagination_witness:
  "length (list' (onSearchIconClick toLowerCaseASCII (onSearch ''ANN'' loaded25))) = 2 \<and>
   totalPagesOf (onSearchIconClick toLowerCaseASCII (onSearch ''ANN'' loaded25)) = 3 \<and>
   pg_currentPage (onSearchIconClick toLowerCaseASCII (onSearch ''ANN'' loaded25)) = 1"
proof -
  let ?s = "onSearch ''ANN'' loaded25"
  have h1: "length (original ?s) = 25" by code_simp
  have h2: "pg_total ?s = int (length (original ?s))" by code_simp
  have h3: "length (filter (matches toLowerCaseASCII (searchText ?s)) (original ?s)) = 2" by code_simp
  have h4: "pg_currentPage ?s = 1" by code_simp
  from search_leaves_pagination [OF h1 h2 h3] h4 show ?thesis by metis
qed

subsection \<open>The header checkbox\<close>

text \<open>
  C3, as stated: the header checkbox deselects every record of the current
  page when all of them were selected and selects every one otherwise, so on
  a page with mixed selection it selects all. In the session \<open>tickOne\<close>
  record 1 of page 1 is selected and record 0 is not; after the header
  checkbox record 1 is not selected.
\<close>

theorem toggleSelectPage_mixed_counterexample:
  "feasible toLowerCaseASCII (tickOne @ [CheckboxClick (Some ''all'')]) loaded25 \<and>
   isInCurrentPage (pg_currentPage (run toLowerCaseASCII tickOne loaded25)) 0 \<and>
   isInCurrentPage (pg_currentPage (run toLowerCaseASCII tickOne loaded25)) 1 \<and>
   \<not> selected (original (run toLowerCaseASCII tickOne loaded25) ! 0) \<and>
   selected (original (run toLowerCaseASCII tickOne loaded25) ! 1) \<and>
   \<not> selected (original (onCheckboxClick (Some ''all'') (run toLowerCaseASCII tickOne loaded25)) ! 1)"
  by code_simp

text \<open>
  C3, amended. In every state in which the table shows the current page (the
  rows are the page's slice of the canonical list, no search result is on
  display), the header checkbox inverts the selection flag of every record
  on the page: it deselects them all when all were selected, selects them all
  when none was, and on a page with mixed selection the selected and the
  unselected records change places. The records before and after the page
  are left as they are, no record changes its id, name, email or role, and
  the table shows the same page afterwards.
\<close>

theorem toggleSelectPage_inverts_shown_page:
  assumes "inSync s" and "list' s = paginatedListOf s"
  shows "list' s = take (nat PAGE_SIZE)
                     (drop (nat ((pg_currentPage s - 1) * PAGE_SIZE)) (original s)) \<and>
         list' (onCheckboxClick (Some ''all'') s) = map flip_delete (list' s) \<and>
         original (onCheckboxClick (Some ''all'') s) =
           take (nat ((pg_currentPage s - 1) * PAGE_SIZE)) (original s)
           @ map flip_delete (list' s)
           @ drop (nat ((pg_currentPage s - 1) * PAGE_SIZE) + nat PAGE_SIZE) (original s) \<and>
         (\<forall>item. selected (flip_delete item) = (\<not> selected item) \<and>
                 uid (flip_delete item) = uid item \<and> name (flip_delete item) = name item \<and>
                 email (flip_delete item) = email item \<and> role (flip_delete item) = role item) \<and>
         ((\<forall>item \<in> set (list' s). selected item) \<longrightarrow>
            (\<forall>item \<in> set (list' (onCheckboxClick (Some ''all'') s)). \<not> selected item)) \<and>
         ((\<forall>item \<in> set (list' s). \<not> selected item) \<longrightarrow>
            (\<forall>item \<in> set (list' (onCheckboxClick (Some ''all'') s)). selected item)) \<and>
         inSync (onCheckboxClick (Some ''all'') s) \<and>
         list' (onCheckboxClick (Some ''all'') s) = paginatedListOf (onCheckboxClick (Some ''all'') s)"
proof -
  let ?s' = "onCheckboxClick (Some ''all'') s"
  let ?k = "nat ((pg_currentPage s - 1) * PAGE_SIZE)"
  let ?n = "nat PAGE_SIZE"
  have cp: "1 \<le> pg_currentPage s" and pl: "pl_currentPage s = pg_currentPage s - 1"
    using assms(1) by (simp_all add: inSync_def)
  have shown: "list' s = take ?n (drop ?k (original s))"
    using assms by (simp add: paginatedListOf_inSync)
  have sync': "inSync ?s'"
    using assms(1) by (rule inSync_mutation)
  have "list' ?s' = take ?n (drop ?k (original ?s'))"
    using cp pl by (simp add: list_toggle_all paginatedList_take_drop PAGE_SIZE_def)
  then have shown': "list' ?s' = map flip_delete (list' s)"
    by (simp only: toggle_all_window(3) [OF cp] shown)
  have "original ?s' = take ?k (original ?s') @ take ?n (drop ?k (original ?s'))
          @ drop (?k + ?n) (original ?s')"
    by (rule split_at_page)
  then have canon: "original ?s' =
      take ?k (original s) @ map flip_delete (list' s) @ drop (?k + ?n) (original s)"
    by (simp only: toggle_all_window [OF cp] shown [symmetric])
  have page': "list' ?s' = paginatedListOf ?s'"
    using cp pl sync'
    by (simp add: paginatedListOf_inSync pg_currentPage_toggle_all
          \<open>list' ?s' = take ?n (drop ?k (original ?s'))\<close>)
  have all: "\<forall>item \<in> set (list' ?s'). \<not> selected item"
    if "\<forall>item \<in> set (list' s). selected item"
    using that by (simp add: shown' flip_delete_fields)
  have none: "\<forall>item \<in> set (list' ?s'). selected item"
    if "\<forall>item \<in> set (list' s). \<not> selected item"
    using that by (simp add: shown' flip_delete_fields)
  show ?thesis
    using shown shown' canon all none sync' page' by (simp add: flip_delete_fields)
qed

theorem toggleSelectPage_inverts_shown_page_witness:
  "map selected (list' (run toLowerCaseASCII tickOne loaded25))
     = [False, True, False, False, False, False, False, False, False, False] \<and>
   map selected (list' (onCheckboxClick (Some ''all'') (run toLowerCaseASCII tickOne loaded25)))
     = [True, False, True, True, True, True, True, True, True, True] \<and>
   map uid (list' (onCheckboxClick (Some ''all'') (run toLowerCaseASCII tickOne loaded25)))
     = map uid (list' (run toLowerCaseASCII tickOne loaded25)) \<and>
   drop 10 (original (onCheckboxClick (Some ''all'') (run toLowerCaseASCII tickOne loaded25)))
     = drop 10 (original (run toLowerCaseASCII tickOne loaded25))"
proof -
  let ?s = "run toLowerCaseASCII tickOne loaded25"
  have h1: "inSync ?s" by code_simp
  have h2: "list' ?s = paginatedListOf ?s" by code_simp
  have a: "map selected (list' ?s)
             = [False, True, False, False, False, False, False, False, False, False]"
    by code_simp
  have b: "map selected (map flip_delete (list' ?s))
             = [True, False, True, True, True, True, True, True, True, True]"
    by code_simp
  have c: "map uid (map flip_delete (list' ?s)) = map uid (list' ?s)"
    by code_simp
  have d: "drop 10 (take (nat ((pg_currentPage ?s - 1) * PAGE_SIZE)) (original ?s)
             @ map flip_delete (list' ?s)
             @ drop (nat ((pg_currentPage ?s - 1) * PAGE_SIZE) + nat PAGE_SIZE) (original ?s))
           = drop 10 (original ?s)"
    by code_simp
  from toggleSelectPage_inverts_shown_page [OF h1 h2] a b c d
  show ?thesis by metis
qed

text \<open>
  The amended statement is about a table that shows the page. While a search
  result is on display the handler still addresses the canonical positions
  of the current page: in the session \<open>searchU1\<close> the rows shown are the
  records \<open>10\<close> to \<open>19\<close>, and the header checkbox selects the records
  \<open>00\<close> to \<open>09\<close>, none of which is shown.
\<close>

lemma header_click_on_search_result:
  "feasible toLowerCaseASCII (searchU1 @ [CheckboxClick (Some ''all'')]) loaded25 \<and>
   map uid (list' (run toLowerCaseASCII searchU1 loaded25))
     = [''10'', ''11'', ''12'', ''13'', ''14'', ''15'', ''16'', ''17'', ''18'', ''19''] \<and>
   map uid (filter selected
       (original (run toLowerCaseASCII (searchU1 @ [CheckboxClick (Some ''all'')]) loaded25)))
     = [''00'', ''01'', ''02'', ''03'', ''04'', ''05'', ''06'', ''07'', ''08'', ''09'']"
  by code_simp

text \<open>
  C7. Clicking the header checkbox twice in a row gives every record the
  selection flag it had before the first click (and leaves its other fields
  and the current page as they were).
\<close>

theorem toggleSelectPage_twice:
  "map selected (original (onCheckboxClick (Some ''all'') (onCheckboxClick (Some ''all'') s)))
     = map selected (original s) \<and>
   map (\<lambda>item. (uid item, name item, email item, role item))
       (original (onCheckboxClick (Some ''all'') (onCheckboxClick (Some ''all'') s)))
     = map (\<lambda>item. (uid item, name item, email item, role item)) (original s) \<and>
   pg_currentPage (onCheckboxClick (Some ''all'') (onCheckboxClick (Some ''all'') s))
     = pg_currentPage s"
proof -
  let ?s1 = "onCheckboxClick (Some ''all'') s"
  let ?s2 = "onCheckboxClick (Some ''all'') ?s1"
  have len: "length (original ?s2) = length (original s)"
    by (simp add: length_original_toggle_all)
  have nth: "original ?s2 ! i =
      (original s ! i)\<lparr>delete :=
         (if isInCurrentPage (pg_currentPage s) (int i)
          then Some (selected (original s ! i)) else delete (original s ! i))\<rparr>"
    if "i < length (original s)" for i
    using that
    by (simp add: nth_original_toggle_all length_original_toggle_all
          pg_currentPage_toggle_all selected_def)
  have a: "map selected (original ?s2) = map selected (original s)"
    using len by (intro nth_equalityI) (auto simp: nth selected_def)
  have b: "map (\<lambda>item. (uid item, name item, email item, role item)) (original ?s2)
      = map (\<lambda>item. (uid item, name item, email item, role item)) (original s)"
    using len by (intro nth_equalityI) (simp_all add: nth)
  show ?thesis
    using a b by (simp add: pg_currentPage_toggle_all)
qed

subsection \<open>Deletion\<close>

text \<open>
  C4. After the bulk delete the canonical list holds no record that was
  selected (and, when ids are unique, no id of one), every record that was
  not selected is still there, in the order it had, and the count of selected
  records is zero.
\<close>

theorem deleteSelected_removes_selected:
  "(\<forall>item \<in> set (original (onDeleteSelectedClick s)). \<not> selected item) \<and>
   (\<forall>item \<in> set (original s). selected item \<longrightarrow> item \<notin> set (original (onDeleteSelectedClick s))) \<and>
   (distinct (map uid (original s)) \<longrightarrow>
      (\<forall>item \<in> set (original s). selected item \<longrightarrow>
         uid item \<notin> set (map uid (original (onDeleteSelectedClick s))))) \<and>
   (\<forall>item \<in> set (original s). \<not> selected item \<longrightarrow> item \<in> set (original (onDeleteSelectedClick s))) \<and>
   original (onDeleteSelectedClick s) = filter (\<lambda>item. \<not> selected item) (original s) \<and>
   subseq (original (onDeleteSelectedClick s)) (original s) \<and>
   selectedCount (onDeleteSelectedClick s) = 0"
proof -
  let ?s' = "onDeleteSelectedClick s"
  have o: "original ?s' = filter (\<lambda>item. \<not> selected item) (original s)"
    by (simp add: onDeleteSelectedClick_def original_commit_original)
  have "list' ?s' = paginatedList (original ?s') (pl_currentPage s) PAGE_SIZE"
    by (simp add: onDeleteSelectedClick_def list_commit_original original_commit_original)
  then have l: "set (list' ?s') \<subseteq> set (original ?s')"
    by (simp only: set_paginatedList)
  have c: "selectedCount ?s' = 0"
    using l unfolding selectedCount_def o by (auto simp: filter_empty_conv)
  have d: "uid item \<notin> set (map uid (original ?s'))"
    if "distinct (map uid (original s))" "item \<in> set (original s)" "selected item" for item
  proof
    assume "uid item \<in> set (map uid (original ?s'))"
    then obtain v where v: "v \<in> set (original s)" "\<not> selected v" "uid v = uid item"
      unfolding o by auto
    from that(1) have "inj_on uid (set (original s))" by (simp add: distinct_map)
    with v that(2) have "v = item" by (auto dest: inj_onD)
    with v that(3) show False by simp
  qed
  show ?thesis
    using c d unfolding o by auto
qed

theorem deleteSelected_removes_selected_witness:
  "length (filter selected (original (run toLowerCaseASCII tickThenOpenLastPage loaded25))) = 6 \<and>
   selectedCount (run toLowerCaseASCII tickThenOpenLastPage loaded25) = 5 \<and>
   length (original (onDeleteSelectedClick (run toLowerCaseASCII tickThenOpenLastPage loaded25))) = 19 \<and>
   original (onDeleteSelectedClick (run toLowerCaseASCII tickThenOpenLastPage loaded25))
     = filter (\<lambda>item. \<not> selected item) (original (run toLowerCaseASCII tickThenOpenLastPage loaded25)) \<and>
   selectedCount (onDeleteSelectedClick (run toLowerCaseASCII tickThenOpenLastPage loaded25)) = 0"
proof -
  let ?s = "run toLowerCaseASCII tickThenOpenLastPage loaded25"
  have a: "length (filter selected (original ?s)) = 6" by code_simp
  have b: "selectedCount ?s = 5" by code_simp
  have c: "length (original (onDeleteSelectedClick ?s)) = 19" by code_simp
  from deleteSelected_removes_selected [of ?s] a b c show ?thesis by blast
qed

text \<open>
  C10. Deleting a single record by an id that no record of the canonical list
  has leaves the canonical list as it is.
\<close>

theorem deleteOne_stale_id:
  assumes "i \<notin> set (map uid (original s))"
  shows "original (onDeleteClick (Some i) s) = original s"
  using assms
  by (auto simp: onDeleteClick_def original_commit_original filter_id_conv)

theorem deleteOne_stale_id_witness:
  "''99'' \<notin> set (map uid (original loaded25)) \<and>
   original (onDeleteClick (Some ''99'') loaded25) = original loaded25"
proof -
  have h: "''99'' \<notin> set (map uid (original loaded25))" by code_simp
  from deleteOne_stale_id [OF h] h show ?thesis by simp
qed

subsection \<open>Saving an edit\<close>

text \<open>
  C8. The claim: saving replaces the name, email and role of the record whose
  row was put into edit mode, and of no other. \<^verbatim>\<open>onEditClick\<close> stores the
  row's position in the list shown, and \<^verbatim>\<open>onSaveClick\<close> adds the page offset
  to it to address the canonical list. In the session \<open>editAfterSearch\<close> the
  list shown is a search result: the row of record \<open>07\<close> is its second
  row, so position 1 of the canonical list is written. Record \<open>01\<close> gets
  the new name and the email of record \<open>07\<close>; record \<open>07\<close> is unchanged.
\<close>

theorem save_after_search_overwrites_other_record:
  "feasible toLowerCaseASCII editAfterSearch loaded25 \<and>
   list' (run toLowerCaseASCII (take 2 editAfterSearch) loaded25) = [mkUser 5, mkUser 7] \<and>
   editIndex (run toLowerCaseASCII (take 3 editAfterSearch) loaded25) = 1 \<and>
   pg_currentPage (run toLowerCaseASCII (take 4 editAfterSearch) loaded25) = 1 \<and>
   original loaded25 ! 1 = mkUser 1 \<and>
   original (run toLowerCaseASCII editAfterSearch loaded25) ! 1
     = (mkUser 1)\<lparr>name := ''Zed'', email := email (mkUser 7)\<rparr> \<and>
   original (run toLowerCaseASCII editAfterSearch loaded25) ! 7 = mkUser 7"
  by code_simp

subsection \<open>Loading\<close>

text \<open>
  The hook \<^verbatim>\<open>useApiService\<close>, which the component does not call, has the same
  \<^verbatim>\<open>try\<close> block but no \<^verbatim>\<open>finally\<close>: an abort returns before any dispatch,
  so its state stays as \<^verbatim>\<open>REQUEST\<close> left it, with \<open>loading\<close> set.
\<close>

lemma trigger_abort_state:
  "trigger (Inl AbortError) st = st\<lparr>api_loading := True, api_error := None\<rparr>"
  by (simp add: trigger_def tryBlock_def)

text \<open>
  What \<^verbatim>\<open>fetchData\<close> does with each outcome. An abort (while the request or
  while the body is awaited) leaves the error text as it was and sets
  \<open>loading\<close> to false. A response that is not \<open>ok\<close> sets the error text to
  the status text, or to a fixed message when the status text is empty, so it
  is never empty. An \<^verbatim>\<open>Error\<close> thrown by the transport or by the parser sets
  it to that error's message as it is, any other thrown value to a fixed
  message. The hook \<^verbatim>\<open>useApiService\<close> falls back to its fixed message for
  an empty text on every failure.
\<close>

lemma fetchData_outcomes:
  "error (fetchData (Inl AbortError) s) = error s \<and>
   \<not> loading (fetchData (Inl AbortError) s) \<and>
   original (fetchData (Inl AbortError) s) = original s \<and>
   error (fetchData (Inr \<lparr>ok = True, statusText = t, json = Inl AbortError\<rparr>) s) = error s \<and>
   \<not> loading (fetchData (Inr \<lparr>ok = True, statusText = t, json = Inl AbortError\<rparr>) s) \<and>
   (\<not> ok resp \<longrightarrow>
      error (fetchData (Inr resp) s) =
        (if statusText resp = [] then ''Something went wrong!'' else statusText resp) \<and>
      error (fetchData (Inr resp) s) \<noteq> [] \<and>
      \<not> loading (fetchData (Inr resp) s)) \<and>
   error (fetchData (Inl (ErrorObj m)) s) = m \<and>
   \<not> loading (fetchData (Inl (ErrorObj m)) s) \<and>
   error (fetchData (Inr \<lparr>ok = True, statusText = t, json = Inl (ErrorObj m)\<rparr>) s) = m \<and>
   error (fetchData (Inl OtherValue) s) = ''Error while fetching the data'' \<and>
   \<not> loading (fetchData (Inl OtherValue) s) \<and>
   api_error (trigger (Inl AbortError) st) = None \<and>
   (\<not> ok resp \<longrightarrow>
      api_error (trigger (Inr resp) st) =
        Some (if statusText resp = [] then ''Something went wrong!'' else statusText resp)) \<and>
   api_error (trigger (Inl (ErrorObj m)) st) =
     Some (if m = [] then ''Something went wrong!'' else m)"
  by (simp add: fetchData_def fetchData_settle_def fetchData_start_def tryBlock_def
        trigger_def orElse_def)


text \<open>
  C9. The claim: an aborted fetch surfaces no error and leaves a state that
  is idle and free of errors, whereas any response that is not a success and
  any transport error sets one readable error message. The abort and the
  response that is not \<open>ok\<close> behave so. A transport error whose
  \<^verbatim>\<open>Error\<close> carries an empty message does not: \<^verbatim>\<open>catch\<close> stores
  \<^verbatim>\<open>err.message\<close> with no fallback, the error text stays empty, no error
  row is rendered, and the state is the very state an abort leaves. The
  branch for a response that is not \<open>ok\<close> and the reducer of
  \<^verbatim>\<open>useApiService\<close> both substitute a fixed message for an empty text.
\<close>

theorem fetch_error_without_message_shows_nothing:
  "fetchData (Inl (ErrorObj [])) initialState = fetchData (Inl AbortError) initialState \<and>
   error (fetchData (Inl (ErrorObj [])) initialState) = [] \<and>
   \<not> errorShown (fetchData (Inl (ErrorObj [])) initialState) \<and>
   \<not> errorShown (fetchData
       (Inr \<lparr>ok = True, statusText = ''OK'', json = Inl (ErrorObj [])\<rparr>) initialState) \<and>
   errorShown (fetchData (Inl (ErrorObj ''Failed to fetch'')) initialState) \<and>
   error (fetchData (Inr \<lparr>ok = False, statusText = [], json = Inl OtherValue\<rparr>) initialState)
     = ''Something went wrong!'' \<and>
   api_error (trigger (Inl (ErrorObj [])) api_initialState) = Some ''Something went wrong!''"
  by (simp add: fetchData_def fetchData_settle_def fetchData_start_def tryBlock_def
        initialState_def errorShown_def trigger_def orElse_def api_initialState_def)

end
